theory Spec2Isabelle
  imports Complex_Main
begin

section \<open>JavaScript numbers\<close>

text \<open>
  The dashboard script computes with JavaScript numbers. They are modelled as the
  real numbers extended by the three special values of IEEE 754 arithmetic, so that
  a division by zero or a power outside the domain is a value of the model, as it is
  in the script, and not an unspecified real. Rounding and overflow to infinity are
  not modelled, and the two zeros are one (the zero of the model is \<open>+0\<close>).
\<close>

datatype jsnum = Num real | PInf | NInf | NaN

fun js_mul :: "jsnum \<Rightarrow> jsnum \<Rightarrow> jsnum" where
  "js_mul NaN _ = NaN"
| "js_mul _ NaN = NaN"
| "js_mul (Num a) (Num b) = Num (a * b)"
| "js_mul (Num a) PInf = (if a = 0 then NaN else if 0 < a then PInf else NInf)"
| "js_mul (Num a) NInf = (if a = 0 then NaN else if 0 < a then NInf else PInf)"
| "js_mul PInf (Num b) = (if b = 0 then NaN else if 0 < b then PInf else NInf)"
| "js_mul NInf (Num b) = (if b = 0 then NaN else if 0 < b then NInf else PInf)"
| "js_mul PInf PInf = PInf"
| "js_mul PInf NInf = NInf"
| "js_mul NInf PInf = NInf"
| "js_mul NInf NInf = PInf"

fun js_add :: "jsnum \<Rightarrow> jsnum \<Rightarrow> jsnum" where
  "js_add NaN _ = NaN"
| "js_add _ NaN = NaN"
| "js_add (Num a) (Num b) = Num (a + b)"
| "js_add PInf NInf = NaN"
| "js_add NInf PInf = NaN"
| "js_add PInf _ = PInf"
| "js_add _ PInf = PInf"
| "js_add NInf _ = NInf"
| "js_add _ NInf = NInf"

fun js_div :: "jsnum \<Rightarrow> jsnum \<Rightarrow> jsnum" where
  "js_div NaN _ = NaN"
| "js_div _ NaN = NaN"
| "js_div (Num a) (Num b) =
     (if b = 0 then (if a = 0 then NaN else if 0 < a then PInf else NInf)
      else Num (a / b))"
| "js_div (Num a) PInf = Num 0"
| "js_div (Num a) NInf = Num 0"
| "js_div PInf (Num b) = (if 0 \<le> b then PInf else NInf)"
| "js_div NInf (Num b) = (if 0 \<le> b then NInf else PInf)"
| "js_div _ _ = NaN"

text \<open>
  \<open>Math.pow\<close> on two finite numbers: any base to the power 0 is 1; a positive
  base has its real power; zero to a positive power is 0 and to a negative power is
  \<open>Infinity\<close>; a negative base has a power for an integer exponent only, and is
  \<open>NaN\<close> otherwise.
\<close>

definition js_pow :: "real \<Rightarrow> real \<Rightarrow> jsnum" where
  "js_pow x y =
     (if y = 0 then Num 1
      else if 0 < x then Num (x powr y)
      else if x = 0 then (if 0 < y then Num 0 else PInf)
      else if y = of_int \<lfloor>y\<rfloor>
           then (if 0 < y then Num (x ^ nat \<lfloor>y\<rfloor>) else Num (1 / x ^ nat \<lfloor>- y\<rfloor>))
           else NaN)"

text \<open>
  The remainder \<open>%\<close> truncates the quotient towards zero, so its sign is the sign of
  the dividend.
\<close>

definition js_trunc :: "real \<Rightarrow> int" where
  "js_trunc r = (if 0 \<le> r then \<lfloor>r\<rfloor> else \<lceil>r\<rceil>)"

fun js_rem :: "jsnum \<Rightarrow> jsnum \<Rightarrow> jsnum" where
  "js_rem (Num a) (Num b) = (if b = 0 then NaN else Num (a - b * of_int (js_trunc (a / b))))"
| "js_rem (Num a) PInf = Num a"
| "js_rem (Num a) NInf = Num a"
| "js_rem _ _ = NaN"

section \<open>The response curve of the dashboard\<close>

text \<open>
  \<^verbatim>\<open>
  function hillFunction(spend, halfSaturation, slope) {
      return 100 * Math.pow(spend, slope)
           / (Math.pow(halfSaturation, slope) + Math.pow(spend, slope));
  }
  \<close>
  The script has no check of its parameters and no \<open>throw\<close>: the function is
  total, and its value on the percent scale (the factor 100) is what the chart
  divides by 100 again when it draws.
\<close>

definition hillFunction :: "real \<Rightarrow> real \<Rightarrow> real \<Rightarrow> jsnum" where
  "hillFunction spend halfSaturation slope =
     js_div (js_mul (Num 100) (js_pow spend slope))
            (js_add (js_pow halfSaturation slope) (js_pow spend slope))"

section \<open>The dashboard script: state, page and requests\<close>

text \<open>
  The script keeps a global \<open>state\<close> object and writes to the page. The model is one
  record: the fields of \<open>state\<close> that the script assigns, the parts of the page it
  reads back or writes (the stage cards, the modals, the run button, the drop area),
  whether the interval of the status poller is live, and two traces for what leaves
  the script: the notifications shown and the requests sent to the backend.
  Each handler is a function from the record to the record. An \<open>await\<close> splits a
  handler in two; the answer of the backend is an argument of the second part.
\<close>

datatype stage_status = Pending | Running | Completed

record stage_card =
  icon_status :: stage_status
  badge_status :: stage_status
  badge_text :: string
  card_active :: bool
  card_completed :: bool
  progress_width :: jsnum

datatype request =
    UploadReq string
  | StatusReq "string option"
  | CheckpointReq "string option" bool
  | ResultsReq "string option"

datatype 'a fetch_reply = Failed string | Reply 'a



record checkpoint_info =
  cp_pending :: bool
  cp_stage :: string
  cp_message :: string

record status_data =
  sd_status :: string
  current_stage :: "string option"
  progress :: jsnum
  sd_error :: string
  checkpoint :: "checkpoint_info option"

record decision_data =
  dec_success :: bool
  dec_error :: string

record app =
  fileId :: "string option"
  pipelineId :: "string option"
  pipelineRunning :: bool
  runBtnDisabled :: bool
  runBtnLabel :: string
  cards :: "string \<rightharpoonup> stage_card"
  activeModals :: "string set"
  checkpointShown :: "checkpoint_info option"
  dragOver :: bool
  polling :: bool
  inFlight :: nat
  notifications :: "(string \<times> string) list"
  requests :: "request list"

definition showNotification :: "string \<Rightarrow> string \<Rightarrow> app \<Rightarrow> app" where
  "showNotification message type a = a\<lparr>notifications := notifications a @ [(message, type)]\<rparr>"

definition openModal :: "string \<Rightarrow> app \<Rightarrow> app" where
  "openModal modalId a = a\<lparr>activeModals := insert modalId (activeModals a)\<rparr>"

definition closeModal :: "string \<Rightarrow> app \<Rightarrow> app" where
  "closeModal modalId a = a\<lparr>activeModals := activeModals a - {modalId}\<rparr>"

subsection \<open>File upload\<close>




subsection \<open>The stage cards\<close>

definition stages :: "string list" where
  "stages = [''segmentation'', ''trend'', ''baseline'', ''model'', ''budget'', ''insight'']"

text \<open>\<open>xs.indexOf(x)\<close>: the first index of \<open>x\<close>, or \<open>-1\<close>.\<close>

fun indexOf :: "'a list \<Rightarrow> 'a \<Rightarrow> int" where
  "indexOf [] x = - 1"
| "indexOf (y # ys) x =
     (if y = x then 0 else (let r = indexOf ys x in if r < 0 then - 1 else r + 1))"

text \<open>The badge shows the status with its first letter in upper case.\<close>

fun status_label :: "stage_status \<Rightarrow> string" where
  "status_label Pending = ''Pending''"
| "status_label Running = ''Running''"
| "status_label Completed = ''Completed''"

text \<open>
  \<open>updateStageUI\<close> does nothing when the page has no card for the stage. Otherwise
  it replaces the status class of the icon and of the badge, sets the badge text, and
  gives the card the class \<open>active\<close> or \<open>completed\<close> (or neither, for pending).
\<close>

definition updateStageUI :: "string \<Rightarrow> stage_status \<Rightarrow> app \<Rightarrow> app" where
  "updateStageUI stageName status a =
     (case cards a stageName of
        None \<Rightarrow> a
      | Some el \<Rightarrow>
          a\<lparr>cards := (cards a)(stageName \<mapsto>
               el\<lparr>icon_status := status, badge_status := status,
                    badge_text := status_label status,
                    card_active := (status = Running),
                    card_completed := (status = Completed)\<rparr>)\<rparr>)"

definition setStageProgress :: "string \<Rightarrow> jsnum \<Rightarrow> app \<Rightarrow> app" where
  "setStageProgress stageName percent a =
     (case cards a stageName of
        None \<Rightarrow> a
      | Some el \<Rightarrow> a\<lparr>cards := (cards a)(stageName \<mapsto> el\<lparr>progress_width := percent\<rparr>)\<rparr>)"

text \<open>The names of the backend are mapped to the ids of the cards, one test after the other.\<close>

definition stage_id :: "string \<Rightarrow> string" where
  "stage_id currentStage =
     (let s1 = (if currentStage = ''trend_scanner'' then ''trend'' else currentStage);
          s2 = (if s1 = ''model_optimization'' then ''model'' else s1);
          s3 = (if s2 = ''budget_optimization'' then ''budget'' else s2)
      in if s3 = ''insight_generation'' then ''insight'' else s3)"

text \<open>The loop \<open>for (let i = 0; i < currentIndex; i++)\<close> of \<open>updatePipelineUI\<close>.\<close>

definition complete_previous :: "nat \<Rightarrow> app \<Rightarrow> app" where
  "complete_previous currentIndex a =
     fold (\<lambda>i b. setStageProgress (stages ! i) (Num 100) (updateStageUI (stages ! i) Completed b))
          [0 ..< currentIndex] a"

text \<open>
  \<open>updatePipelineUI\<close>: when the reported stage is one of the six, its card is set
  to running, the cards before it to completed with a full bar, and its own bar to
  \<open>(progress % 20) * 5\<close>. The script stores no stage of its own to compare with.
\<close>

definition updatePipelineUI :: "status_data \<Rightarrow> app \<Rightarrow> app" where
  "updatePipelineUI statusData a =
     (case current_stage statusData of
        None \<Rightarrow> a
      | Some currentStage \<Rightarrow>
          (let stageId = stage_id currentStage
           in if stageId \<noteq> [] \<and> stageId \<in> set stages
              then (let a1 = updateStageUI stageId Running a;
                        currentIndex = indexOf stages stageId;
                        a2 = complete_previous (nat currentIndex) a1
                    in setStageProgress stageId
                         (js_mul (js_rem (progress statusData) (Num 20)) (Num 5)) a2)
              else a))"

text \<open>What the cards show for a stage, and the stage index that a status report names.\<close>

definition shown_completed :: "app \<Rightarrow> string \<Rightarrow> bool" where
  "shown_completed a stageName =
     (case cards a stageName of
        None \<Rightarrow> False
      | Some el \<Rightarrow> icon_status el = Completed \<and> badge_status el = Completed \<and>
                  badge_text el = ''Completed'' \<and> card_completed el \<and> \<not> card_active el \<and>
                  progress_width el = Num 100)"

definition shown_running :: "app \<Rightarrow> string \<Rightarrow> bool" where
  "shown_running a stageName =
     (case cards a stageName of
        None \<Rightarrow> False
      | Some el \<Rightarrow> icon_status el = Running \<and> badge_status el = Running \<and>
                  badge_text el = ''Running'' \<and> card_active el \<and> \<not> card_completed el)"

definition reported_index :: "status_data \<Rightarrow> nat option" where
  "reported_index statusData =
     (case current_stage statusData of
        None \<Rightarrow> None
      | Some currentStage \<Rightarrow>
          if stage_id currentStage \<in> set stages
          then Some (nat (indexOf stages (stage_id currentStage))) else None)"

text \<open>
  The page as the script expects it after \<open>resetStageUI\<close>: one card for each of the
  six stages, pending, with an empty bar (\<open>index.html\<close> is not among the sources; its
  summary lists the six stage cards). And a status report of a running pipeline.
\<close>

definition pending_card :: stage_card where
  "pending_card =
     \<lparr>icon_status = Pending, badge_status = Pending, badge_text = ''Pending'',
      card_active = False, card_completed = False, progress_width = Num 0\<rparr>"

definition page_loaded :: app where
  "page_loaded =
     \<lparr>fileId = None, pipelineId = None, pipelineRunning = False, runBtnDisabled = True,
      runBtnLabel = ''Run Pipeline'',
      cards = (\<lambda>stageName. if stageName \<in> set stages then Some pending_card else None),
      activeModals = {}, checkpointShown = None, dragOver = False, polling = False,
      inFlight = 0, notifications = [], requests = []\<rparr>"

definition stage_report :: "string \<Rightarrow> status_data" where
  "stage_report stageName =
     \<lparr>sd_status = ''running'', current_stage = Some stageName, progress = Num 50,
      sd_error = [], checkpoint = None\<rparr>"

subsection \<open>The status poller\<close>

text \<open>
  \<open>completePipeline\<close> up to its request for the results, and \<open>resetPipeline\<close>.
  The display of the results is drawing and is left out.
\<close>

definition completePipeline :: "app \<Rightarrow> app" where
  "completePipeline a =
     (let a1 = showNotification ''Pipeline completed successfully!'' ''success''
                 (a\<lparr>pipelineRunning := False, runBtnLabel := ''Completed''\<rparr>)
      in a1\<lparr>requests := requests a1 @ [ResultsReq (pipelineId a1)]\<rparr>)"

definition resetPipeline :: "app \<Rightarrow> app" where
  "resetPipeline a = a\<lparr>pipelineRunning := False, runBtnDisabled := False, runBtnLabel := ''Run Pipeline''\<rparr>"

definition showCheckpointModal :: "checkpoint_info \<Rightarrow> app \<Rightarrow> app" where
  "showCheckpointModal cp a = openModal ''checkpointModal'' (a\<lparr>checkpointShown := Some cp\<rparr>)"

text \<open>
  \<open>pollPipelineStatus\<close> starts the interval unless there is no pipeline id. The
  callback of the interval is in two parts. \<open>pollFire\<close> is the timer firing: the
  status request is sent. \<open>pollSettle\<close> is the rest of the callback, run when the
  answer to one of the requests in flight arrives: a failed request is only logged;
  an answer updates the cards, and the interval is cleared for the status
  \<open>completed\<close>, \<open>failed\<close> or \<open>stopped\<close> and for no other. A cleared interval
  does not fire.
\<close>

definition pollPipelineStatus :: "app \<Rightarrow> app" where
  "pollPipelineStatus a =
     (if pipelineId a = None \<or> pipelineId a = Some [] then a else a\<lparr>polling := True\<rparr>)"

definition pollFire :: "app \<Rightarrow> app" where
  "pollFire a =
     (if polling a
      then a\<lparr>inFlight := Suc (inFlight a), requests := requests a @ [StatusReq (pipelineId a)]\<rparr>
      else a)"

definition pollSettle :: "status_data fetch_reply \<Rightarrow> app \<Rightarrow> app" where
  "pollSettle reply a0 =
     (if inFlight a0 = 0 then a0
      else
        (let a = a0\<lparr>inFlight := inFlight a0 - 1\<rparr>
         in case reply of
              Failed msg \<Rightarrow> a
            | Reply data \<Rightarrow>
                (let a1 = updatePipelineUI data a;
                     a2 = (if sd_status data = ''completed''
                           then completePipeline (a1\<lparr>polling := False\<rparr>)
                           else if sd_status data = ''failed''
                           then resetPipeline
                                  (showNotification (''Pipeline failed: '' @ sd_error data) ''error''
                                     (a1\<lparr>polling := False\<rparr>))
                           else if sd_status data = ''stopped''
                           then resetPipeline
                                  (showNotification ''Pipeline stopped by user'' ''warning''
                                     (a1\<lparr>polling := False\<rparr>))
                           else a1)
                 in case checkpoint data of
                      None \<Rightarrow> a2
                    | Some cp \<Rightarrow>
                        if cp_pending cp \<and> ''checkpointModal'' \<notin> activeModals a2
                        then showCheckpointModal cp a2 else a2)))"

datatype poll_event = Fire | Settle "status_data fetch_reply"

fun pollStep :: "app \<Rightarrow> poll_event \<Rightarrow> app" where
  "pollStep a Fire = pollFire a"
| "pollStep a (Settle reply) = pollSettle reply a"

text \<open>The status of an answer that clears the interval, if the event is such an answer.\<close>

fun stops_polling :: "poll_event \<Rightarrow> bool" where
  "stops_polling (Settle (Reply data)) =
     (sd_status data = ''completed'' \<or> sd_status data = ''failed'' \<or> sd_status data = ''stopped'')"
| "stops_polling _ = False"

text \<open>The number of times the timer fires in a sequence of events.\<close>

fun fires :: "poll_event list \<Rightarrow> nat" where
  "fires [] = 0"
| "fires (Fire # evs) = Suc (fires evs)"
| "fires (Settle reply # evs) = fires evs"

subsection \<open>The checkpoint decision\<close>

text \<open>
  \<open>handleCheckpointDecision\<close> closes the modal, posts the decision and shows what
  the backend answered. It assigns nothing in \<open>state\<close>: what becomes of the run is
  decided by the backend.
\<close>

definition handleCheckpointDecision :: "bool \<Rightarrow> decision_data fetch_reply \<Rightarrow> app \<Rightarrow> app" where
  "handleCheckpointDecision approved reply a =
     (let a1 = closeModal ''checkpointModal'' a;
          a2 = a1\<lparr>requests := requests a1 @ [CheckpointReq (pipelineId a1) approved]\<rparr>
      in case reply of
           Failed msg \<Rightarrow> showNotification (''Network error: '' @ msg) ''error'' a2
         | Reply data \<Rightarrow>
             if dec_success data
             then showNotification (if approved then ''Checkpoint approved'' else ''Checkpoint rejected'')
                    (if approved then ''success'' else ''warning'') a2
             else showNotification (''Error: '' @ dec_error data) ''error'' a2)"

section \<open>The Data Studio view\<close>

text \<open>
  The React view \<open>DataStudio\<close> keeps its state in hooks; \<open>pollStatus\<close> starts an
  interval of its own. The record has the hooks that \<open>pollStatus\<close> writes, whether
  its interval is live, the number of status requests sent and in flight, and what the
  callback does outside the view: the alerts and the route navigated to.
\<close>

record data_studio =
  ds_running :: bool
  ds_pipelineId :: "string option"
  ds_error :: "string option"
  ds_interval :: bool
  ds_inFlight :: nat
  ds_statusRequests :: nat
  ds_alerts :: "string list"
  ds_route :: "string option"

record ds_status =
  res_status :: string
  res_error :: string

definition pollStatus :: "data_studio \<Rightarrow> data_studio" where
  "pollStatus v = v\<lparr>ds_interval := True\<rparr>"

text \<open>
  The timer firing sends the request; a cleared interval does not fire. The rest of
  the callback runs when an answer arrives. A request that throws clears the interval,
  sets \<open>running\<close> to false and reports \<open>Status check failed\<close>.
\<close>

definition statusFire :: "data_studio \<Rightarrow> data_studio" where
  "statusFire v =
     (if ds_interval v
      then v\<lparr>ds_inFlight := Suc (ds_inFlight v), ds_statusRequests := Suc (ds_statusRequests v)\<rparr>
      else v)"

definition statusSettle :: "ds_status fetch_reply \<Rightarrow> data_studio \<Rightarrow> data_studio" where
  "statusSettle reply v0 =
     (if ds_inFlight v0 = 0 then v0
      else
        (let v = v0\<lparr>ds_inFlight := ds_inFlight v0 - 1\<rparr>
         in case reply of
              Failed msg \<Rightarrow>
                v\<lparr>ds_interval := False, ds_running := False, ds_error := Some ''Status check failed''\<rparr>
            | Reply res \<Rightarrow>
                if res_status res = ''completed''
                then v\<lparr>ds_interval := False, ds_running := False,
                       ds_alerts := ds_alerts v @ [''Model run completed successfully! Check the Dashboard.''],
                       ds_route := Some ''/''\<rparr>
                else if res_status res = ''failed''
                then v\<lparr>ds_interval := False, ds_running := False,
                       ds_error := Some (''Pipeline execution failed: '' @ res_error res)\<rparr>
                else v))"

datatype ds_event = DsFire | DsSettle "ds_status fetch_reply"

fun dsStep :: "data_studio \<Rightarrow> ds_event \<Rightarrow> data_studio" where
  "dsStep v DsFire = statusFire v"
| "dsStep v (DsSettle reply) = statusSettle reply v"

section \<open>The core behind the dashboard\<close>

text \<open>
  The transforms, the checkpoint gate and the optimizer run in the backend of the
  repository; of it the sources have the documentation only. Each definition of this
  section says what it stands for.
\<close>

text \<open>Modelled from the spec: the error taxonomy of section 7 (the backend is not among the sources).\<close>

datatype error =
    ValidationError
  | InvalidParameterError
  | InvalidStateError
  | DuplicateDecisionError
  | InfeasibleConstraintsError
  | SolverNotConverged

subsection \<open>Carryover\<close>

text \<open>
  Modelled from the spec: the loop of the carryover transform (\<open>transformations.py\<close>
  of the repository is not among the sources). Section 4.3 gives the recurrence
  \<open>effect[t] = spend[t] + decay_rate * effect[t-1]\<close>, computed strictly in sequence:
  the loop carries the previous effect along.
\<close>

fun carryover_from :: "real \<Rightarrow> real \<Rightarrow> real list \<Rightarrow> real list" where
  "carryover_from decay_rate prev [] = []"
| "carryover_from decay_rate prev (s # spend) =
     (s + decay_rate * prev) # carryover_from decay_rate (s + decay_rate * prev) spend"

text \<open>
  Modelled from the spec: the carryover transform (\<open>transformations.py\<close> is not among
  the sources). By section 4.3 the loop starts from \<open>effect[-1] = 0\<close>, the decay rate
  is in \<open>[0, 1)\<close>, and a decay rate outside this domain fails with
  \<open>InvalidParameterError\<close>.
\<close>

definition carryover :: "real \<Rightarrow> real list \<Rightarrow> error + real list" where
  "carryover decay_rate spend =
     (if 0 \<le> decay_rate \<and> decay_rate < 1 then Inr (carryover_from decay_rate 0 spend)
      else Inl InvalidParameterError)"

subsection \<open>Checkpoint gate\<close>

text \<open>
  Modelled from the spec: the status of a run and the decision of a checkpoint, section 3
  (the backend's \<open>checkpoints.py\<close> and state store are not among the sources).
\<close>

datatype run_status =
  RunPending | RunRunning | AwaitingCheckpoint | RunCompleted | RunFailed | Aborted

datatype decision = DecisionPending | Approved | Rejected

text \<open>
  Modelled from the spec: the \<open>PipelineRun\<close> of section 3 (the state store is not among
  the sources): identifier, stage names, current stage index, status, the artifact
  written by each stage, the error detail, and the decision of each gated stage.
\<close>

record pipeline_run =
  run_id :: string
  stage_names :: "string list"
  stage_index :: nat
  status :: run_status
  artifacts :: "string \<rightharpoonup> string"
  error_detail :: "string option"
  checkpoints :: "string \<rightharpoonup> decision"

text \<open>
  Modelled from the spec: \<open>record_decision\<close> of the Checkpoint Gate (the backend,
  \<open>checkpoints.py\<close>, is not among the sources; the script above only posts the
  decision). By sections 4.1 and 4.2 a decision is recorded at most once, and a second
  recording fails with \<open>DuplicateDecisionError\<close> and changes nothing; approval sends
  the run from \<open>awaiting_checkpoint\<close> back to \<open>running\<close>; rejection is terminal,
  the run is \<open>aborted\<close>, and the artifacts already produced are kept. A decision for
  a run that is not waiting at this checkpoint is an illegal transition
  (\<open>InvalidStateError\<close>).
\<close>

definition record_decision :: "pipeline_run \<Rightarrow> string \<Rightarrow> bool \<Rightarrow> error + pipeline_run" where
  "record_decision run stage_name approved =
     (case checkpoints run stage_name of
        None \<Rightarrow> Inl InvalidStateError
      | Some Approved \<Rightarrow> Inl DuplicateDecisionError
      | Some Rejected \<Rightarrow> Inl DuplicateDecisionError
      | Some DecisionPending \<Rightarrow>
          if status run \<noteq> AwaitingCheckpoint then Inl InvalidStateError
          else if approved
          then Inr (run\<lparr>checkpoints := (checkpoints run)(stage_name \<mapsto> Approved),
                        status := RunRunning\<rparr>)
          else Inr (run\<lparr>checkpoints := (checkpoints run)(stage_name \<mapsto> Rejected),
                        status := Aborted\<rparr>))"

subsection \<open>Budget optimizer\<close>

text \<open>
  Modelled from the spec: the bounds of a channel within a scenario, sections 3 and 4.5
  (the optimizer of the repository is not among the sources): minimum and maximum
  fraction of the budget, the absolute floor if one is set, the current allocation and
  the greatest deviation from it that the scenario allows.
\<close>

record channel_bounds =
  min_fraction :: real
  max_fraction :: real
  absolute_min :: "real option"
  current :: real
  max_deviation :: real

text \<open>
  Modelled from the spec: the \<open>OptimizationScenario\<close> of section 3 (the optimizer is
  not among the sources), with the resulting allocation and its objective value.
\<close>

record scenario =
  scenario_name :: string
  total_budget :: real
  channels :: "channel_bounds list"
  allocation :: "real list"
  objective :: real

text \<open>
  Modelled from the spec: the constraints of section 4.5 on the spend of one channel (the
  optimizer is not among the sources): the fraction bounds, the absolute floor, the
  deviation cap.
\<close>

definition within_bounds :: "real \<Rightarrow> channel_bounds \<Rightarrow> real \<Rightarrow> bool" where
  "within_bounds budget ch spend =
     (min_fraction ch * budget \<le> spend \<and> spend \<le> max_fraction ch * budget \<and>
      (case absolute_min ch of None \<Rightarrow> True | Some floor_spend \<Rightarrow> floor_spend \<le> spend) \<and>
      \<bar>spend - current ch\<bar> \<le> max_deviation ch)"

text \<open>
  Modelled from the spec: the equality constraint of section 4.5 (the optimizer is not
  among the sources), the spends summing to the total budget within the relative
  tolerance \<open>1e-6\<close> of section 8.
\<close>

definition sums_to_budget :: "real \<Rightarrow> real list \<Rightarrow> bool" where
  "sums_to_budget budget spends = (\<bar>sum_list spends - budget\<bar> \<le> \<bar>budget\<bar> / 1000000)"

text \<open>
  Modelled from the spec: the validation of an allocation against all constraints, which
  section 4.5 requires before an allocation is accepted (the optimizer is not among the
  sources).
\<close>

definition validate_allocation :: "scenario \<Rightarrow> real list \<Rightarrow> bool" where
  "validate_allocation sc spends =
     (length spends = length (channels sc) \<and>
      sums_to_budget (total_budget sc) spends \<and>
      list_all2 (within_bounds (total_budget sc)) (channels sc) spends)"

text \<open>
  Modelled from the spec: the objective of section 4.5, the sum of the response curves
  at the spends (the optimizer is not among the sources; the curves are a parameter).
\<close>

definition total_response :: "(real \<Rightarrow> real) list \<Rightarrow> real list \<Rightarrow> real" where
  "total_response curves spends = sum_list (map (\<lambda>(curve, spend). curve spend) (zip curves spends))"

text \<open>
  Modelled from the spec: the choice of the best-objective result among the candidates
  (the optimizer is not among the sources). The spec leaves the choice among equals
  open; here the first of equals is kept.
\<close>

fun best_allocation :: "(real \<Rightarrow> real) list \<Rightarrow> real list \<Rightarrow> real list list \<Rightarrow> real list" where
  "best_allocation curves best [] = best"
| "best_allocation curves best (c # cs) =
     (if total_response curves best < total_response curves c
      then best_allocation curves c cs else best_allocation curves best cs)"

text \<open>
  Modelled from the spec: one attempt of the solver (the optimizer is not among the
  sources). The gradient solver itself is a parameter: \<open>solve start tolerance\<close> is the
  allocation that the run from the randomized start number \<open>start\<close> converges to, or
  \<open>None\<close> when it does not converge; by section 4.5 such a run is retried once with a
  relaxed tolerance.
\<close>

definition attempt :: "(nat \<Rightarrow> real \<Rightarrow> real list option) \<Rightarrow> real \<Rightarrow> real \<Rightarrow> nat \<Rightarrow> real list option" where
  "attempt solve tolerance relaxed start =
     (case solve start tolerance of
        Some spends \<Rightarrow> Some spends
      | None \<Rightarrow> solve start relaxed)"

text \<open>
  Modelled from the spec: \<open>optimize\<close> of section 4.5 (the optimizer is not among the
  sources). Bounds whose minimum fractions sum to more than 1 are infeasible; the
  attempts from all starts are made; every allocation found is validated again against
  all constraints before it is accepted, and one that violates them is not returned;
  the accepted allocation with the best objective value is the result.
\<close>

definition optimize ::
  "(nat \<Rightarrow> real \<Rightarrow> real list option) \<Rightarrow> nat \<Rightarrow> real \<Rightarrow> real \<Rightarrow>
   (real \<Rightarrow> real) list \<Rightarrow> scenario \<Rightarrow> error + scenario" where
  "optimize solve starts tolerance relaxed curves sc =
     (if 1 < sum_list (map min_fraction (channels sc)) then Inl InfeasibleConstraintsError
      else
        (let found = List.map_filter (attempt solve tolerance relaxed) [0 ..< starts]
         in if found = [] then Inl SolverNotConverged
            else
              (case filter (validate_allocation sc) found of
                 [] \<Rightarrow> Inl InfeasibleConstraintsError
               | c # cs \<Rightarrow>
                   (let best = best_allocation curves c cs
                    in Inr (sc\<lparr>allocation := best, objective := total_response curves best\<rparr>)))))"

section \<open>Example inputs\<close>

text \<open>
  A poller at work on the loaded page, with one request in flight, and the report of a
  run that waits at its checkpoint.
\<close>

definition polling_page :: app where
  "polling_page = page_loaded\<lparr>pipelineId := Some ''run-1'', pipelineRunning := True,
                              polling := True, inFlight := 1\<rparr>"

definition awaiting_report :: status_data where
  "awaiting_report =
     \<lparr>sd_status = ''awaiting_checkpoint'', current_stage = Some ''baseline'', progress = Num 40,
      sd_error = [],
      checkpoint = Some \<lparr>cp_pending = True, cp_stage = ''baseline'', cp_message = ''Review baseline''\<rparr>\<rparr>"

definition completed_report :: status_data where
  "completed_report =
     \<lparr>sd_status = ''completed'', current_stage = Some ''insight_generation'', progress = Num 100,
      sd_error = [], checkpoint = None\<rparr>"

text \<open>The Data Studio view while it polls, with one request in flight.\<close>

definition polling_view :: data_studio where
  "polling_view =
     \<lparr>ds_running = True, ds_pipelineId = Some ''run-1'', ds_error = None, ds_interval = True,
      ds_inFlight = 1, ds_statusRequests = 1, ds_alerts = [], ds_route = None\<rparr>"

text \<open>A run that waits at the checkpoint of its third stage, two artifacts written.\<close>

definition waiting_run :: pipeline_run where
  "waiting_run =
     \<lparr>run_id = ''run-1'',
      stage_names = [''segmentation'', ''trend_scanner'', ''baseline'', ''model_optimization'',
                     ''budget_optimization'', ''insight_generation''],
      stage_index = 2, status = AwaitingCheckpoint,
      artifacts = [''segmentation'' \<mapsto> ''segments'', ''trend_scanner'' \<mapsto> ''trends''],
      error_detail = None,
      checkpoints = [''baseline'' \<mapsto> DecisionPending]\<rparr>"

text \<open>
  The scenario of the spec's example, a budget of 1,000,000 over two channels with the
  fraction bounds [0.2, 0.6] and [0.4, 0.8], and a solver of three starts: the first
  does not converge, the second ends outside the bounds, the third inside.
\<close>

definition two_channels :: scenario where
  "two_channels =
     \<lparr>scenario_name = ''base'', total_budget = 1000000,
      channels = [\<lparr>min_fraction = 1 / 5, max_fraction = 3 / 5, absolute_min = None,
                   current = 500000, max_deviation = 200000\<rparr>,
                  \<lparr>min_fraction = 2 / 5, max_fraction = 4 / 5, absolute_min = Some 100000,
                   current = 500000, max_deviation = 200000\<rparr>],
      allocation = [], objective = 0\<rparr>"

definition fixed_solver :: "nat \<Rightarrow> real \<Rightarrow> real list option" where
  "fixed_solver start tolerance =
     (if start = 0 then None
      else if start = 1 then Some [900000, 100000]
      else Some [400000, 600000])"

section \<open>Properties of the response curve\<close>










text \<open>
  C2 (as the script has it). At spend 50 with half-saturation 50 and slope 2 the
  function returns exactly 50, the half of the percent scale, and not 0.5.
\<close>

theorem hillFunction_half_saturation: "hillFunction 50 50 2 = Num 50"
  by (simp add: hillFunction_def js_pow_def)

theorem hillFunction_half_not_0_5: "hillFunction 50 50 2 \<noteq> Num (1 / 2)"
  by (simp add: hillFunction_def js_pow_def)




section \<open>Properties of the carryover transform\<close>

lemma carryover_from_length: "length (carryover_from d p xs) = length xs"
  by (induction xs arbitrary: p) simp_all

lemma carryover_from_nth:
  "t < length xs \<Longrightarrow>
   carryover_from d p xs ! t = xs ! t + d * (if t = 0 then p else carryover_from d p xs ! (t - 1))"
proof (induction xs arbitrary: p t)
  case Nil
  then show ?case by simp
next
  case (Cons s xs)
  show ?case
  proof (cases t)
    case 0
    then show ?thesis by simp
  next
    case (Suc k)
    then have "k < length xs" using Cons.prems by simp
    from Cons.IH [OF this, of "s + d * p"] Suc show ?thesis
      by (cases k) simp_all
  qed
qed

text \<open>
  C4. For every decay rate in \<open>[0, 1)\<close> and every spend sequence, the carryover
  transform returns an effect sequence of the same length that satisfies
  \<open>effect[t] = spend[t] + decay_rate * effect[t-1]\<close> with \<open>effect[-1] = 0\<close>; in
  particular the decay rate 0.5 on the spend [100, 100, 100] yields [100, 150, 175].
\<close>

theorem carryover_recurrence:
  assumes "0 \<le> decay_rate" and "decay_rate < 1"
  shows "(\<exists>effect. carryover decay_rate spend = Inr effect \<and>
            length effect = length spend \<and>
            (\<forall>t<length spend.
               effect ! t = spend ! t + decay_rate * (if t = 0 then 0 else effect ! (t - 1)))) \<and>
         carryover (1 / 2) [100, 100, 100] = Inr [100, 150, 175]"
proof -
  have "carryover (1 / 2) [100, 100, 100] = Inr [100, 150, 175]"
    by (simp add: carryover_def)
  then show ?thesis
    using assms by (simp add: carryover_def carryover_from_length carryover_from_nth)
qed

theorem carryover_recurrence_witness:
  "(\<exists>effect. carryover (1 / 2) [100, 100, 100] = Inr effect \<and>
            length effect = length [100, 100, 100 :: real] \<and>
            (\<forall>t<length [100, 100, 100 :: real].
               effect ! t = [100, 100, 100] ! t + (1 / 2) * (if t = 0 then 0 else effect ! (t - 1)))) \<and>
   carryover (1 / 2) [100, 100, 100] = Inr [100, 150, 175]"
proof -
  have "0 \<le> (1 / 2 :: real)" and "(1 / 2 :: real) < 1" by simp_all
  from carryover_recurrence [OF this, of "[100, 100, 100]"] show ?thesis .
qed

section \<open>Properties of the stage cards\<close>

lemma stages_distinct: "distinct stages" and stages_length: "length stages = 6"
  by (simp_all add: stages_def)

lemma indexOf_nonneg_iff: "0 \<le> indexOf xs x \<longleftrightarrow> x \<in> set xs"
  by (induction xs) (auto simp: Let_def)

lemma indexOf_nth:
  "x \<in> set xs \<Longrightarrow> nat (indexOf xs x) < length xs \<and> xs ! nat (indexOf xs x) = x"
proof (induction xs)
  case Nil
  then show ?case by simp
next
  case (Cons y ys)
  show ?case
  proof (cases "y = x")
    case True
    then show ?thesis by simp
  next
    case False
    with Cons.prems have m: "x \<in> set ys" by simp
    then have nn: "0 \<le> indexOf ys x" by (simp add: indexOf_nonneg_iff)
    from Cons.IH [OF m] False nn show ?thesis
      by (simp add: Let_def nat_add_distrib)
  qed
qed

lemma reported_index_Some:
  assumes "reported_index d = Some i"
  obtains cs where "current_stage d = Some cs" and "stage_id cs \<in> set stages"
    and "i = nat (indexOf stages (stage_id cs))" and "i < length stages"
    and "stages ! i = stage_id cs"
proof -
  from assms obtain cs where cs: "current_stage d = Some cs" "stage_id cs \<in> set stages"
    "i = nat (indexOf stages (stage_id cs))"
    by (auto simp: reported_index_def split: option.splits if_splits)
  from indexOf_nth [OF cs(2)] cs(3) have "i < length stages" "stages ! i = stage_id cs"
    by simp_all
  with cs that show thesis by blast
qed

lemma reported_index_None:
  assumes "reported_index d = None"
  shows "updatePipelineUI d a = a"
  using assms
  by (auto simp: reported_index_def updatePipelineUI_def Let_def split: option.splits if_splits)

lemma updateStageUI_other: "s' \<noteq> s \<Longrightarrow> cards (updateStageUI s st a) s' = cards a s'"
  by (simp add: updateStageUI_def split: option.splits)

lemma setStageProgress_other: "s' \<noteq> s \<Longrightarrow> cards (setStageProgress s p a) s' = cards a s'"
  by (simp add: setStageProgress_def split: option.splits)

lemma updateStageUI_dom: "dom (cards (updateStageUI s st a)) = dom (cards a)"
  by (auto simp: updateStageUI_def split: option.splits)

lemma setStageProgress_dom: "dom (cards (setStageProgress s p a)) = dom (cards a)"
  by (auto simp: setStageProgress_def split: option.splits)

lemma mark_completed:
  assumes "s \<in> dom (cards a)"
  shows "shown_completed (setStageProgress s (Num 100) (updateStageUI s Completed a)) s"
  using assms
  by (auto simp: shown_completed_def setStageProgress_def updateStageUI_def)

lemma shown_completed_cong:
  "cards b s = cards a s \<Longrightarrow> shown_completed b s = shown_completed a s"
  by (simp add: shown_completed_def)

lemma shown_running_cong:
  "cards b s = cards a s \<Longrightarrow> shown_running b s = shown_running a s"
  by (simp add: shown_running_def)

lemma complete_previous_Suc:
  "complete_previous (Suc k) a =
     setStageProgress (stages ! k) (Num 100) (updateStageUI (stages ! k) Completed (complete_previous k a))"
  by (simp add: complete_previous_def)

lemma complete_previous_dom: "dom (cards (complete_previous k a)) = dom (cards a)"
  by (induction k)
    (simp_all add: complete_previous_Suc setStageProgress_dom updateStageUI_dom,
     simp add: complete_previous_def)

lemma complete_previous_other:
  "s \<notin> set (take k stages) \<Longrightarrow> k \<le> length stages \<Longrightarrow> cards (complete_previous k a) s = cards a s"
proof (induction k)
  case 0
  show ?case by (simp add: complete_previous_def)
next
  case (Suc k)
  then have k: "k < length stages" by simp
  with Suc.prems have ne: "s \<noteq> stages ! k" and nt: "s \<notin> set (take k stages)"
    by (simp_all add: take_Suc_conv_app_nth)
  from Suc.IH [OF nt] k ne show ?case
    by (simp add: complete_previous_Suc setStageProgress_other updateStageUI_other)
qed

lemma complete_previous_marks:
  assumes "set stages \<subseteq> dom (cards a)" and "k \<le> length stages" and "j < k"
  shows "shown_completed (complete_previous k a) (stages ! j)"
  using assms(2,3)
proof (induction k)
  case 0
  then show ?case by simp
next
  case (Suc k)
  then have k: "k < length stages" by simp
  let ?b = "complete_previous k a"
  have "stages ! k \<in> set stages" using k by simp
  then have dom: "stages ! k \<in> dom (cards ?b)"
    using assms(1) by (auto simp: complete_previous_dom)
  show ?case
  proof (cases "j = k")
    case True
    with mark_completed [OF dom] show ?thesis by (simp add: complete_previous_Suc)
  next
    case False
    with Suc.prems have jk: "j < k" by simp
    then have ne: "stages ! j \<noteq> stages ! k"
      using k stages_distinct by (simp add: nth_eq_iff_index_eq)
    have "cards (complete_previous (Suc k) a) (stages ! j) = cards ?b (stages ! j)"
      using ne by (simp add: complete_previous_Suc setStageProgress_other updateStageUI_other)
    from shown_completed_cong [OF this] Suc.IH jk k show ?thesis by simp
  qed
qed

lemma updatePipelineUI_dom: "dom (cards (updatePipelineUI d a)) = dom (cards a)"
  by (simp add: updatePipelineUI_def Let_def setStageProgress_dom complete_previous_dom
      updateStageUI_dom split: option.splits)

lemma updatePipelineUI_marks:
  assumes ri: "reported_index d = Some i" and dom: "set stages \<subseteq> dom (cards a)"
  shows "(\<forall>j<i. shown_completed (updatePipelineUI d a) (stages ! j)) \<and>
         shown_running (updatePipelineUI d a) (stages ! i)"
proof -
  from ri obtain cs where cs: "current_stage d = Some cs" "stage_id cs \<in> set stages"
    "i = nat (indexOf stages (stage_id cs))" "i < length stages" "stages ! i = stage_id cs"
    by (rule reported_index_Some)
  let ?sid = "stage_id cs"
  let ?a1 = "updateStageUI ?sid Running a"
  let ?a2 = "complete_previous i ?a1"
  let ?p = "js_mul (js_rem (progress d) (Num 20)) (Num 5)"
  have ne: "?sid \<noteq> []" using cs(2) by (auto simp: stages_def)
  have upd: "updatePipelineUI d a = setStageProgress ?sid ?p ?a2"
    using cs ne by (simp add: updatePipelineUI_def Let_def)
  have dom1: "set stages \<subseteq> dom (cards ?a1)" using dom by (simp add: updateStageUI_dom)
  have notin: "?sid \<notin> set (take i stages)"
  proof
    assume "?sid \<in> set (take i stages)"
    then obtain j where j: "j < i" "stages ! j = ?sid"
      using cs(4) by (auto simp: in_set_conv_nth)
    then have jl: "j < length stages" using cs(4) by simp
    from nth_eq_iff_index_eq [OF stages_distinct jl cs(4)] j cs(5) show False by simp
  qed
  have "?sid \<in> dom (cards a)" using dom cs(2) by blast
  then have r1: "shown_running ?a1 ?sid"
    by (auto simp: shown_running_def updateStageUI_def)
  have "cards ?a2 ?sid = cards ?a1 ?sid"
    using notin cs(4) by (simp add: complete_previous_other)
  from shown_running_cong [OF this] r1 have r2: "shown_running ?a2 ?sid" by simp
  have run: "shown_running (setStageProgress ?sid ?p ?a2) ?sid"
    using r2 by (auto simp: shown_running_def setStageProgress_def split: option.splits)
  have comp: "shown_completed (setStageProgress ?sid ?p ?a2) (stages ! j)" if "j < i" for j
  proof -
    have jl: "j < length stages" using that cs(4) by simp
    from nth_eq_iff_index_eq [OF stages_distinct jl cs(4)] that cs(5)
    have "stages ! j \<noteq> ?sid" by simp
    then have "cards (setStageProgress ?sid ?p ?a2) (stages ! j) = cards ?a2 (stages ! j)"
      by (simp add: setStageProgress_other)
    from shown_completed_cong [OF this] complete_previous_marks [OF dom1 _ that] cs(4)
    show ?thesis by simp
  qed
  show ?thesis using run comp upd cs(5) by simp
qed

lemma later_updates_keep:
  assumes "\<forall>d' \<in> set ds. \<forall>k. reported_index d' = Some k \<longrightarrow> i \<le> k"
    and "set stages \<subseteq> dom (cards a)"
    and "\<forall>j<i. shown_completed a (stages ! j)"
  shows "\<forall>j<i. shown_completed (fold updatePipelineUI ds a) (stages ! j)"
  using assms
proof (induction ds arbitrary: a)
  case Nil
  then show ?case by simp
next
  case (Cons d' ds)
  have dom': "set stages \<subseteq> dom (cards (updatePipelineUI d' a))"
    using Cons.prems(2) by (simp add: updatePipelineUI_dom)
  have keep: "\<forall>j<i. shown_completed (updatePipelineUI d' a) (stages ! j)"
  proof (cases "reported_index d'")
    case None
    then show ?thesis using Cons.prems(3) by (simp add: reported_index_None)
  next
    case (Some k)
    then have "i \<le> k" using Cons.prems(1) by simp
    with updatePipelineUI_marks [OF Some Cons.prems(2)] show ?thesis by auto
  qed
  have "\<forall>d' \<in> set ds. \<forall>k. reported_index d' = Some k \<longrightarrow> i \<le> k"
    using Cons.prems(1) by simp
  from Cons.IH [OF this dom' keep] show ?case by simp
qed

lemma running_not_completed: "shown_running a s \<Longrightarrow> \<not> shown_completed a s"
  by (auto simp: shown_running_def shown_completed_def split: option.splits)

text \<open>
  C5 (as the script has it). On a page that has the six stage cards, whenever a status
  update reports the current stage at index \<open>i\<close> of the fixed six-stage order, every
  stage at an index lower than \<open>i\<close> is marked completed with 100% progress and stage
  \<open>i\<close> is marked running; and these stages stay marked completed through every later
  sequence of updates none of which reports a stage of lower index. The script keeps no
  stage index of its own: an update that reports a lower stage is shown as it comes.
\<close>

theorem updatePipelineUI_completes_previous:
  assumes "reported_index d = Some i" and "set stages \<subseteq> dom (cards a)"
  shows "(\<forall>j<i. shown_completed (updatePipelineUI d a) (stages ! j)) \<and>
         shown_running (updatePipelineUI d a) (stages ! i) \<and>
         (\<forall>ds. (\<forall>d' \<in> set ds. \<forall>k. reported_index d' = Some k \<longrightarrow> i \<le> k) \<longrightarrow>
               (\<forall>j<i. shown_completed (fold updatePipelineUI ds (updatePipelineUI d a)) (stages ! j)))"
proof -
  from updatePipelineUI_marks [OF assms]
  have m: "\<forall>j<i. shown_completed (updatePipelineUI d a) (stages ! j)"
    and r: "shown_running (updatePipelineUI d a) (stages ! i)" by simp_all
  have dom': "set stages \<subseteq> dom (cards (updatePipelineUI d a))"
    using assms(2) by (simp add: updatePipelineUI_dom)
  show ?thesis using m r later_updates_keep [OF _ dom' m] by blast
qed

theorem updatePipelineUI_completes_previous_witness:
  "reported_index (stage_report ''model_optimization'') = Some 3 \<and>
   shown_completed (updatePipelineUI (stage_report ''model_optimization'') page_loaded) ''segmentation'' \<and>
   shown_completed (updatePipelineUI (stage_report ''model_optimization'') page_loaded) ''trend'' \<and>
   shown_completed (updatePipelineUI (stage_report ''model_optimization'') page_loaded) ''baseline'' \<and>
   shown_running (updatePipelineUI (stage_report ''model_optimization'') page_loaded) ''model''"
proof -
  let ?a = "updatePipelineUI (stage_report ''model_optimization'') page_loaded"
  have h1: "reported_index (stage_report ''model_optimization'') = Some 3"
    by (simp add: reported_index_def stage_report_def stage_id_def stages_def)
  have h2: "set stages \<subseteq> dom (cards page_loaded)"
    by (auto simp: page_loaded_def)
  have n: "stages ! 0 = ''segmentation''" "stages ! 1 = ''trend''" "stages ! 2 = ''baseline''"
    "stages ! 3 = ''model''"
    by (simp_all add: stages_def)
  from updatePipelineUI_completes_previous [OF h1 h2]
  have c: "\<forall>j<3. shown_completed ?a (stages ! j)" and r: "shown_running ?a (stages ! 3)"
    by blast+
  from c have "shown_completed ?a (stages ! 0)" "shown_completed ?a (stages ! 1)"
    "shown_completed ?a (stages ! 2)"
    by simp_all
  with r h1 show ?thesis by (simp only: n)
qed

theorem later_update_moves_to_lower_stage:
  "reported_index (stage_report ''model_optimization'') = Some 3 \<and>
   reported_index (stage_report ''trend_scanner'') = Some 1 \<and>
   shown_running (updatePipelineUI (stage_report ''trend_scanner'')
      (updatePipelineUI (stage_report ''model_optimization'') page_loaded)) ''trend'' \<and>
   \<not> shown_completed (updatePipelineUI (stage_report ''trend_scanner'')
      (updatePipelineUI (stage_report ''model_optimization'') page_loaded)) ''trend''"
proof -
  let ?a = "updatePipelineUI (stage_report ''model_optimization'') page_loaded"
  have m: "reported_index (stage_report ''model_optimization'') = Some 3"
    by (simp add: reported_index_def stage_report_def stage_id_def stages_def)
  have t: "reported_index (stage_report ''trend_scanner'') = Some 1"
    by (simp add: reported_index_def stage_report_def stage_id_def stages_def)
  have "set stages \<subseteq> dom (cards page_loaded)"
    by (auto simp: page_loaded_def)
  then have dom: "set stages \<subseteq> dom (cards ?a)"
    by (simp only: updatePipelineUI_dom)
  have n: "stages ! 1 = ''trend''" by (simp add: stages_def)
  from updatePipelineUI_marks [OF t dom]
  have "shown_running (updatePipelineUI (stage_report ''trend_scanner'') ?a) (stages ! 1)"
    by (rule conjunct2)
  then have r: "shown_running (updatePipelineUI (stage_report ''trend_scanner'') ?a) ''trend''"
    by (simp only: n)
  from r running_not_completed [OF r] m t show ?thesis by blast
qed

section \<open>Properties of the checkpoint decision\<close>

text \<open>
  C6. For every run that waits at a pending checkpoint, recording a rejection
  (\<open>approved = false\<close>) succeeds and yields the run status \<open>aborted\<close>, with every
  artifact persisted before the rejection still in place. On its side the script posts
  the rejection and touches neither its file id, its pipeline id nor the stage cards.
\<close>

theorem record_decision_reject:
  assumes "checkpoints run stage_name = Some DecisionPending"
    and "status run = AwaitingCheckpoint"
  shows "(\<exists>run'. record_decision run stage_name False = Inr run' \<and>
            status run' = Aborted \<and> artifacts run' = artifacts run) \<and>
         requests (handleCheckpointDecision False reply a) =
           requests a @ [CheckpointReq (pipelineId a) False] \<and>
         fileId (handleCheckpointDecision False reply a) = fileId a \<and>
         pipelineId (handleCheckpointDecision False reply a) = pipelineId a \<and>
         cards (handleCheckpointDecision False reply a) = cards a"
proof -
  have gate: "\<exists>run'. record_decision run stage_name False = Inr run' \<and>
            status run' = Aborted \<and> artifacts run' = artifacts run"
    using assms by (simp add: record_decision_def)
  have client: "requests (handleCheckpointDecision False reply a) =
           requests a @ [CheckpointReq (pipelineId a) False] \<and>
         fileId (handleCheckpointDecision False reply a) = fileId a \<and>
         pipelineId (handleCheckpointDecision False reply a) = pipelineId a \<and>
         cards (handleCheckpointDecision False reply a) = cards a"
    by (simp add: handleCheckpointDecision_def closeModal_def showNotification_def Let_def
        split: fetch_reply.splits)
  from gate client show ?thesis by blast
qed

theorem record_decision_reject_witness:
  "(\<exists>run'. record_decision waiting_run ''baseline'' False = Inr run' \<and>
            status run' = Aborted \<and> artifacts run' = artifacts waiting_run) \<and>
   requests (handleCheckpointDecision False (Failed ''offline'') polling_page) =
     requests polling_page @ [CheckpointReq (pipelineId polling_page) False]"
proof -
  have h1: "checkpoints waiting_run ''baseline'' = Some DecisionPending"
    by (simp add: waiting_run_def)
  have h2: "status waiting_run = AwaitingCheckpoint"
    by (simp add: waiting_run_def)
  from record_decision_reject [OF h1 h2, of "Failed ''offline''" polling_page]
  show ?thesis by blast
qed

section \<open>Properties of the budget optimizer\<close>

lemma best_allocation_mem: "best_allocation curves b cs \<in> set (b # cs)"
  by (induction cs arbitrary: b) auto

lemma optimize_validated:
  assumes "optimize solve starts tolerance relaxed curves sc = Inr result"
  shows "validate_allocation sc (allocation result) \<and> channels result = channels sc \<and>
         total_budget result = total_budget sc"
proof -
  let ?found = "List.map_filter (attempt solve tolerance relaxed) [0 ..< starts]"
  obtain c cs where f: "filter (validate_allocation sc) ?found = c # cs"
    and r: "result = sc\<lparr>allocation := best_allocation curves c cs,
                        objective := total_response curves (best_allocation curves c cs)\<rparr>"
    using assms by (auto simp: optimize_def Let_def split: if_splits list.splits)
  have "best_allocation curves c cs \<in> set (filter (validate_allocation sc) ?found)"
    using best_allocation_mem [of curves c cs] f by simp
  then have "validate_allocation sc (best_allocation curves c cs)" by simp
  then show ?thesis using r by simp
qed

lemma within_bounds_parts:
  assumes "within_bounds budget ch spend"
  shows "min_fraction ch * budget \<le> spend \<and> spend \<le> max_fraction ch * budget \<and>
         (\<forall>floor_spend. absolute_min ch = Some floor_spend \<longrightarrow> floor_spend \<le> spend)"
  using assms by (auto simp: within_bounds_def)

text \<open>
  C7. For every scenario that the budget optimizer returns, the optimized spends sum to
  the total budget of the scenario within the relative tolerance \<open>1e-6\<close>, there is
  one spend for each channel, and each spend lies within the bounds of its channel: the
  minimum and maximum fraction of the budget and the absolute floor where one is set.
\<close>

theorem optimize_allocation_feasible:
  assumes "optimize solve starts tolerance relaxed curves sc = Inr result"
  shows "\<bar>sum_list (allocation result) - total_budget result\<bar> \<le> \<bar>total_budget result\<bar> / 1000000 \<and>
         length (allocation result) = length (channels result) \<and>
         (\<forall>i<length (channels result).
            min_fraction (channels result ! i) * total_budget result \<le> allocation result ! i \<and>
            allocation result ! i \<le> max_fraction (channels result ! i) * total_budget result \<and>
            (\<forall>floor_spend. absolute_min (channels result ! i) = Some floor_spend \<longrightarrow>
                floor_spend \<le> allocation result ! i))"
proof -
  from optimize_validated [OF assms]
  have v: "validate_allocation sc (allocation result)"
    and ch: "channels result = channels sc" and tb: "total_budget result = total_budget sc"
    by simp_all
  from v have len: "length (allocation result) = length (channels sc)"
    and s: "sums_to_budget (total_budget sc) (allocation result)"
    and a: "list_all2 (within_bounds (total_budget sc)) (channels sc) (allocation result)"
    by (simp_all add: validate_allocation_def)
  have "min_fraction (channels sc ! i) * total_budget sc \<le> allocation result ! i \<and>
        allocation result ! i \<le> max_fraction (channels sc ! i) * total_budget sc \<and>
        (\<forall>floor_spend. absolute_min (channels sc ! i) = Some floor_spend \<longrightarrow>
            floor_spend \<le> allocation result ! i)"
    if "i < length (channels sc)" for i
    using list_all2_nthD [OF a that] by (rule within_bounds_parts)
  then show ?thesis
    using len s ch tb by (simp add: sums_to_budget_def)
qed

theorem optimize_allocation_feasible_witness:
  "optimize fixed_solver 3 (1 / 1000) (1 / 100) [\<lambda>x. x / 2, \<lambda>x. x] two_channels =
     Inr (two_channels\<lparr>allocation := [400000, 600000], objective := 800000\<rparr>) \<and>
   \<bar>sum_list [400000, 600000] - total_budget two_channels\<bar> \<le> \<bar>total_budget two_channels\<bar> / 1000000"
proof -
  have h: "optimize fixed_solver 3 (1 / 1000) (1 / 100) [\<lambda>x. x / 2, \<lambda>x. x] two_channels =
     Inr (two_channels\<lparr>allocation := [400000, 600000], objective := 800000\<rparr>)"
    by (simp add: optimize_def two_channels_def fixed_solver_def attempt_def List.map_filter_def
        validate_allocation_def sums_to_budget_def within_bounds_def total_response_def upt_rec)
  from optimize_allocation_feasible [OF h] h show ?thesis by simp
qed

section \<open>Properties of the status poller\<close>

lemma updateStageUI_frame: "\<exists>f. updateStageUI s st a = a\<lparr>cards := f\<rparr>"
  by (auto simp: updateStageUI_def split: option.splits intro: exI [of _ "cards a"])

lemma setStageProgress_frame: "\<exists>f. setStageProgress s p a = a\<lparr>cards := f\<rparr>"
  by (auto simp: setStageProgress_def split: option.splits intro: exI [of _ "cards a"])

lemma complete_previous_frame: "\<exists>f. complete_previous k a = a\<lparr>cards := f\<rparr>"
proof (induction k)
  case 0
  show ?case by (auto simp: complete_previous_def intro: exI [of _ "cards a"])
next
  case (Suc k)
  then obtain f where f: "complete_previous k a = a\<lparr>cards := f\<rparr>" ..
  obtain g where g: "updateStageUI (stages ! k) Completed (a\<lparr>cards := f\<rparr>) = a\<lparr>cards := f\<rparr>\<lparr>cards := g\<rparr>"
    using updateStageUI_frame by blast
  obtain h where h: "setStageProgress (stages ! k) (Num 100) (a\<lparr>cards := g\<rparr>) = a\<lparr>cards := g\<rparr>\<lparr>cards := h\<rparr>"
    using setStageProgress_frame by blast
  have "complete_previous (Suc k) a = a\<lparr>cards := h\<rparr>"
    by (simp add: complete_previous_Suc f g h)
  then show ?case by blast
qed

lemma updatePipelineUI_frame: "\<exists>f. updatePipelineUI d a = a\<lparr>cards := f\<rparr>"
proof (cases "\<exists>cs. current_stage d = Some cs \<and> stage_id cs \<noteq> [] \<and> stage_id cs \<in> set stages")
  case False
  then have "updatePipelineUI d a = a"
    by (auto simp: updatePipelineUI_def Let_def split: option.splits)
  then show ?thesis by (auto intro: exI [of _ "cards a"])
next
  case True
  then obtain cs where cs: "current_stage d = Some cs" "stage_id cs \<noteq> []" "stage_id cs \<in> set stages"
    by blast
  obtain f where f: "updateStageUI (stage_id cs) Running a = a\<lparr>cards := f\<rparr>"
    using updateStageUI_frame by blast
  obtain g where g: "complete_previous (nat (indexOf stages (stage_id cs))) (a\<lparr>cards := f\<rparr>)
      = a\<lparr>cards := f\<rparr>\<lparr>cards := g\<rparr>"
    using complete_previous_frame by blast
  obtain h where h: "setStageProgress (stage_id cs) (js_mul (js_rem (progress d) (Num 20)) (Num 5))
      (a\<lparr>cards := g\<rparr>) = a\<lparr>cards := g\<rparr>\<lparr>cards := h\<rparr>"
    using setStageProgress_frame by blast
  have "updatePipelineUI d a = a\<lparr>cards := h\<rparr>"
    using cs by (simp add: updatePipelineUI_def Let_def f g h)
  then show ?thesis by blast
qed

lemma updatePipelineUI_keeps:
  "polling (updatePipelineUI d a) = polling a"
  "requests (updatePipelineUI d a) = requests a"
  "pipelineId (updatePipelineUI d a) = pipelineId a"
proof -
  obtain f where "updatePipelineUI d a = a\<lparr>cards := f\<rparr>"
    using updatePipelineUI_frame by blast
  then show "polling (updatePipelineUI d a) = polling a"
    "requests (updatePipelineUI d a) = requests a"
    "pipelineId (updatePipelineUI d a) = pipelineId a"
    by simp_all
qed

lemma pollSettle_nonstop:
  assumes "\<not> stops_polling (Settle reply)"
  shows "polling (pollSettle reply a) = polling a \<and>
         requests (pollSettle reply a) = requests a \<and>
         pipelineId (pollSettle reply a) = pipelineId a"
proof (cases reply)
  case (Failed msg)
  then show ?thesis by (simp add: pollSettle_def Let_def)
next
  case (Reply data)
  with assms have ns: "sd_status data \<noteq> ''completed''" "sd_status data \<noteq> ''failed''"
    "sd_status data \<noteq> ''stopped''" by simp_all
  show ?thesis
    using Reply ns
    by (simp add: pollSettle_def Let_def updatePipelineUI_keeps showCheckpointModal_def
        openModal_def split: option.splits)
qed

lemma pollSettle_stop:
  assumes "stops_polling (Settle reply)" and "0 < inFlight a"
  shows "\<not> polling (pollSettle reply a)"
proof -
  from assms(1) obtain data where r: "reply = Reply data"
    and st: "sd_status data = ''completed'' \<or> sd_status data = ''failed'' \<or> sd_status data = ''stopped''"
    by (cases reply) simp_all
  show ?thesis
    using r st assms(2)
    by (auto simp: pollSettle_def Let_def completePipeline_def resetPipeline_def
        showNotification_def showCheckpointModal_def openModal_def split: option.splits)
qed

lemma pollStep_nonstop:
  assumes "\<not> stops_polling ev"
  shows "polling (pollStep a ev) = polling a \<and>
         pipelineId (pollStep a ev) = pipelineId a \<and>
         requests (pollStep a ev) =
           requests a @ (if polling a then replicate (fires [ev]) (StatusReq (pipelineId a)) else [])"
proof (cases ev)
  case Fire
  then show ?thesis by (simp add: pollFire_def)
next
  case (Settle reply)
  with assms pollSettle_nonstop [of reply a] show ?thesis by simp
qed

lemma fires_append: "fires (xs @ ys) = fires xs + fires ys"
  by (induction xs rule: fires.induct) simp_all

lemma pollSteps_nonstop:
  assumes "\<forall>ev \<in> set evs. \<not> stops_polling ev" and "polling a"
  shows "polling (foldl pollStep a evs) \<and>
         pipelineId (foldl pollStep a evs) = pipelineId a \<and>
         requests (foldl pollStep a evs) = requests a @ replicate (fires evs) (StatusReq (pipelineId a))"
  using assms
proof (induction evs rule: rev_induct)
  case Nil
  then show ?case by simp
next
  case (snoc ev evs)
  then have ih: "polling (foldl pollStep a evs)"
    "pipelineId (foldl pollStep a evs) = pipelineId a"
    "requests (foldl pollStep a evs) = requests a @ replicate (fires evs) (StatusReq (pipelineId a))"
    by simp_all
  have ns: "\<not> stops_polling ev" using snoc.prems by simp
  from pollStep_nonstop [OF ns, of "foldl pollStep a evs"] ih
  show ?case by (simp add: fires_append replicate_add)
qed

text \<open>
  C8. The status poller has no timeout. It stops polling only on an answer whose status
  is \<open>completed\<close>, \<open>failed\<close> or \<open>stopped\<close> (and on such an answer it does
  stop). Through every sequence of events without such an answer, whatever the other
  statuses are (a run waiting at a checkpoint among them) and whichever requests fail,
  the poller is still polling, and every firing of the interval has sent the next
  status request.
\<close>

theorem poller_stops_only_on_terminal_status:
  "(polling a \<and> \<not> polling (pollStep a ev) \<longrightarrow> stops_polling ev) \<and>
   (stops_polling ev \<and> 0 < inFlight a \<longrightarrow> \<not> polling (pollStep a ev)) \<and>
   (polling a \<and> (\<forall>e \<in> set evs. \<not> stops_polling e) \<longrightarrow>
      polling (foldl pollStep a evs) \<and>
      requests (foldl pollStep a evs) = requests a @ replicate (fires evs) (StatusReq (pipelineId a)))"
proof -
  have one: "stops_polling ev" if "polling a" "\<not> polling (pollStep a ev)"
    using that pollStep_nonstop [of ev a] by auto
  have two: "\<not> polling (pollStep a ev)" if "stops_polling ev" "0 < inFlight a"
  proof -
    from that(1) obtain reply where "ev = Settle reply" by (cases ev) simp_all
    with that pollSettle_stop [of reply a] show ?thesis by simp
  qed
  have three: "polling (foldl pollStep a evs) \<and>
      requests (foldl pollStep a evs) = requests a @ replicate (fires evs) (StatusReq (pipelineId a))"
    if "polling a" "\<forall>e \<in> set evs. \<not> stops_polling e"
    using pollSteps_nonstop [OF that(2) that(1)] by simp
  show ?thesis using one two three by blast
qed

theorem poller_stops_only_on_terminal_status_witness:
  "stops_polling (Settle (Reply completed_report)) \<and>
   \<not> polling (pollStep polling_page (Settle (Reply completed_report))) \<and>
   polling (foldl pollStep polling_page
      [Settle (Failed ''offline''), Fire, Settle (Reply awaiting_report), Fire]) \<and>
   requests (foldl pollStep polling_page
      [Settle (Failed ''offline''), Fire, Settle (Reply awaiting_report), Fire]) =
     requests polling_page @ replicate 2 (StatusReq (pipelineId polling_page))"
proof -
  let ?evs = "[Settle (Failed ''offline''), Fire, Settle (Reply awaiting_report), Fire]"
  have h1: "stops_polling (Settle (Reply completed_report))"
    by (simp add: completed_report_def)
  have h2: "0 < inFlight polling_page" and h3: "polling polling_page"
    by (simp_all add: polling_page_def page_loaded_def)
  have h4: "\<forall>e \<in> set ?evs. \<not> stops_polling e"
    by (simp add: awaiting_report_def)
  have f: "fires ?evs = 2" by simp
  from poller_stops_only_on_terminal_status [of polling_page "Settle (Reply completed_report)" ?evs]
  have stop: "stops_polling (Settle (Reply completed_report)) \<and> 0 < inFlight polling_page \<longrightarrow>
      \<not> polling (pollStep polling_page (Settle (Reply completed_report)))"
    and go: "polling polling_page \<and> (\<forall>e \<in> set ?evs. \<not> stops_polling e) \<longrightarrow>
      polling (foldl pollStep polling_page ?evs) \<and>
      requests (foldl pollStep polling_page ?evs) =
        requests polling_page @ replicate (fires ?evs) (StatusReq (pipelineId polling_page))"
    by (rule conjunct1 [OF conjunct2], rule conjunct2 [OF conjunct2])
  from stop h1 h2 have s: "\<not> polling (pollStep polling_page (Settle (Reply completed_report)))"
    by blast
  from go h3 h4 have g: "polling (foldl pollStep polling_page ?evs) \<and>
      requests (foldl pollStep polling_page ?evs) =
        requests polling_page @ replicate (fires ?evs) (StatusReq (pipelineId polling_page))"
    by blast
  from g have g': "polling (foldl pollStep polling_page ?evs) \<and>
      requests (foldl pollStep polling_page ?evs) =
        requests polling_page @ replicate 2 (StatusReq (pipelineId polling_page))"
    by (simp only: f)
  from h1 s g' show ?thesis by blast
qed

section \<open>Properties of the file drop\<close>




section \<open>Properties of the Data Studio poller\<close>

lemma statusFire_cleared: "\<not> ds_interval v \<Longrightarrow> statusFire v = v"
  by (simp add: statusFire_def)

lemma statusSettle_cleared:
  "\<not> ds_interval v \<Longrightarrow>
   \<not> ds_interval (statusSettle reply v) \<and>
   ds_statusRequests (statusSettle reply v) = ds_statusRequests v"
  by (simp add: statusSettle_def Let_def split: fetch_reply.splits)

lemma dsStep_cleared:
  "\<not> ds_interval v \<Longrightarrow>
   \<not> ds_interval (dsStep v ev) \<and> ds_statusRequests (dsStep v ev) = ds_statusRequests v"
  by (cases ev) (simp_all add: statusFire_cleared statusSettle_cleared)

lemma dsSteps_cleared:
  "\<not> ds_interval v \<Longrightarrow>
   \<not> ds_interval (foldl dsStep v evs) \<and>
   ds_statusRequests (foldl dsStep v evs) = ds_statusRequests v"
proof (induction evs arbitrary: v)
  case Nil
  then show ?case by simp
next
  case (Cons ev evs)
  from dsStep_cleared [OF Cons.prems, of ev]
  have c: "\<not> ds_interval (dsStep v ev)" and r: "ds_statusRequests (dsStep v ev) = ds_statusRequests v"
    by simp_all
  from Cons.IH [OF c] r show ?case by simp
qed

text \<open>
  C10. In the Data Studio view, when a status request throws, the interval is cleared,
  \<open>running\<close> is set to false and the error \<open>Status check failed\<close> is reported;
  and whatever happens afterwards (the timer, answers to requests still in flight, the
  backend still running) the interval stays cleared and no further status request is
  sent.
\<close>

theorem failed_status_request_ends_polling:
  assumes "0 < ds_inFlight v"
  shows "\<not> ds_interval (statusSettle (Failed msg) v) \<and>
         \<not> ds_running (statusSettle (Failed msg) v) \<and>
         ds_error (statusSettle (Failed msg) v) = Some ''Status check failed'' \<and>
         (\<forall>evs. \<not> ds_interval (foldl dsStep (statusSettle (Failed msg) v) evs) \<and>
                ds_statusRequests (foldl dsStep (statusSettle (Failed msg) v) evs) = ds_statusRequests v)"
proof -
  let ?v = "statusSettle (Failed msg) v"
  have c: "\<not> ds_interval ?v" and r: "\<not> ds_running ?v"
    and e: "ds_error ?v = Some ''Status check failed''"
    and n: "ds_statusRequests ?v = ds_statusRequests v"
    using assms by (simp_all add: statusSettle_def Let_def)
  from dsSteps_cleared [OF c] n c r e show ?thesis by simp
qed

theorem failed_status_request_ends_polling_witness:
  "\<not> ds_interval (statusSettle (Failed ''Network Error'') polling_view) \<and>
   \<not> ds_running (statusSettle (Failed ''Network Error'') polling_view) \<and>
   ds_error (statusSettle (Failed ''Network Error'') polling_view) = Some ''Status check failed'' \<and>
   ds_statusRequests
     (foldl dsStep (statusSettle (Failed ''Network Error'') polling_view)
        [DsFire, DsSettle (Reply \<lparr>res_status = ''running'', res_error = []\<rparr>), DsFire]) = 1"
proof -
  have h: "0 < ds_inFlight polling_view" and n: "ds_statusRequests polling_view = 1"
    by (simp_all add: polling_view_def)
  let ?v = "statusSettle (Failed ''Network Error'') polling_view"
  let ?evs = "[DsFire, DsSettle (Reply \<lparr>res_status = ''running'', res_error = []\<rparr>), DsFire]"
  from failed_status_request_ends_polling [OF h, of "''Network Error''"]
  have now: "\<not> ds_interval ?v \<and> \<not> ds_running ?v \<and> ds_error ?v = Some ''Status check failed''"
    and later: "\<forall>evs. \<not> ds_interval (foldl dsStep ?v evs) \<and>
                 ds_statusRequests (foldl dsStep ?v evs) = ds_statusRequests polling_view"
    by blast+
  from later have "ds_statusRequests (foldl dsStep ?v ?evs) = ds_statusRequests polling_view"
    by blast
  with now n show ?thesis by simp
qed

end
